theory Spec2Isabelle
  imports Complex_Main "HOL-Library.Log_Nat"
begin

section \<open>Python values\<close>

text \<open>
  The values that reach \<open>normalize_answer\<close> in \<open>attempts/views.py\<close>: \<open>None\<close>, booleans,
  integers, strings and lists. A \<open>char\<close> stands for one code point below 256 (the Latin-1
  range), so a \<open>string\<close> is a Python \<open>str\<close> all of whose code points are below 256;
  \<open>length\<close> counts code points as Python's \<open>len\<close> does.
\<close>

datatype pyval = PNone | PBool bool | PInt int | PStr string | PList "pyval list"

datatype error = IndexError | ZeroDivisionError | OverflowError | ValueError

text \<open>Truth value testing, as \<open>not ans\<close> uses it.\<close>

fun py_truthy :: "pyval \<Rightarrow> bool" where
  "py_truthy PNone = False"
| "py_truthy (PBool b) = b"
| "py_truthy (PInt i) = (i \<noteq> 0)"
| "py_truthy (PStr s) = (s \<noteq> [])"
| "py_truthy (PList xs) = (xs \<noteq> [])"

subsection \<open>\<open>str\<close> and \<open>repr\<close>\<close>

definition digit_char :: "nat \<Rightarrow> char" where
  "digit_char n = char_of (48 + n)"

fun digits10 :: "nat \<Rightarrow> string" where
  "digits10 n = (if n < 10 then [digit_char n] else digits10 (n div 10) @ [digit_char (n mod 10)])"

definition py_str_int :: "int \<Rightarrow> string" where
  "py_str_int i = (if i < 0 then CHR ''-'' # digits10 (nat (- i)) else digits10 (nat i))"

definition py_printable :: "char \<Rightarrow> bool" where
  "py_printable c = (let n = (of_char c :: nat) in (32 \<le> n \<and> n \<le> 126) \<or> (161 \<le> n \<and> n \<noteq> 173))"

definition hex_digit :: "nat \<Rightarrow> char" where
  "hex_digit n = (if n < 10 then char_of (48 + n) else char_of (87 + n))"

definition repr_char :: "char \<Rightarrow> char \<Rightarrow> string" where
  "repr_char quote c =
     (if c = quote \<or> c = CHR 0x5C then [CHR 0x5C, c]
      else if c = CHR 0x09 then [CHR 0x5C, CHR ''t'']
      else if c = CHR 0x0A then [CHR 0x5C, CHR ''n'']
      else if c = CHR 0x0D then [CHR 0x5C, CHR ''r'']
      else if \<not> py_printable c
        then [CHR 0x5C, CHR ''x'', hex_digit (of_char c div 16), hex_digit (of_char c mod 16)]
      else [c])"

definition repr_str :: "string \<Rightarrow> string" where
  "repr_str s =
     (let quote = (if CHR 0x27 \<in> set s \<and> CHR 0x22 \<notin> set s then CHR 0x22 else CHR 0x27)
      in quote # concat (map (repr_char quote) s) @ [quote])"

fun join_comma :: "string list \<Rightarrow> string" where
  "join_comma [] = []"
| "join_comma [x] = x"
| "join_comma (x # y # ys) = x @ '', '' @ join_comma (y # ys)"

fun py_repr :: "pyval \<Rightarrow> string" where
  "py_repr PNone = ''None''"
| "py_repr (PBool b) = (if b then ''True'' else ''False'')"
| "py_repr (PInt i) = py_str_int i"
| "py_repr (PStr s) = repr_str s"
| "py_repr (PList xs) = ''['' @ join_comma (map py_repr xs) @ '']''"

definition py_str :: "pyval \<Rightarrow> string" where
  "py_str v = (case v of PStr s \<Rightarrow> s | _ \<Rightarrow> py_repr v)"

subsection \<open>\<open>str.strip\<close> and \<open>str.lower\<close>\<close>

text \<open>
  \<open>strip()\<close> without an argument removes the characters for which \<open>isspace()\<close> holds; below
  256 these are the code points 9 to 13, 28 to 32, 133 and 160.
\<close>

definition py_isspace :: "char \<Rightarrow> bool" where
  "py_isspace c =
     (let n = (of_char c :: nat)
      in (9 \<le> n \<and> n \<le> 13) \<or> (28 \<le> n \<and> n \<le> 32) \<or> n = 133 \<or> n = 160)"

definition py_strip :: "string \<Rightarrow> string" where
  "py_strip s = rev (dropWhile py_isspace (rev (dropWhile py_isspace s)))"

text \<open>
  \<open>lower()\<close> below 256: A to Z and the accented capitals 192 to 222 (without the
  multiplication sign 215) move up by 32; every other code point is unchanged.
\<close>

definition py_lower_char :: "char \<Rightarrow> char" where
  "py_lower_char c =
     (let n = (of_char c :: nat)
      in if (65 \<le> n \<and> n \<le> 90) \<or> (192 \<le> n \<and> n \<le> 222 \<and> n \<noteq> 215) then char_of (n + 32) else c)"

definition py_lower :: "string \<Rightarrow> string" where
  "py_lower s = map py_lower_char s"

section \<open>The answer normalizer\<close>

text \<open>
  \<^verbatim>\<open>
  def normalize_answer(ans):
      if not ans:
          return ""
      if isinstance(ans, list):
          ans = ans[0]
      ans = str(ans).strip()
      return ans[0].lower() if ans else ""
  \<close>
  Indexing an empty list raises \<open>IndexError\<close>, which is a branch of \<open>list_first\<close>.
\<close>

definition list_first :: "pyval list \<Rightarrow> error + pyval" where
  "list_first xs = (case xs of [] \<Rightarrow> Inl IndexError | x # _ \<Rightarrow> Inr x)"

definition normalize_answer :: "pyval \<Rightarrow> error + string" where
  "normalize_answer ans =
     (if \<not> py_truthy ans then Inr ''''
      else case (case ans of PList xs \<Rightarrow> list_first xs | _ \<Rightarrow> Inr ans) of
             Inl e \<Rightarrow> Inl e
           | Inr a \<Rightarrow>
               (case py_strip (py_str a) of
                  [] \<Rightarrow> Inr ''''
                | c # _ \<Rightarrow> Inr (py_lower [c])))"

section \<open>Floating-point arithmetic\<close>

text \<open>
  A Python \<open>float\<close> is an IEEE 754 double. A finite double is modelled by the rational
  number it denotes, and every operation rounds its exact result to the nearest double,
  ties to the even significand: 53 significant bits, the least exponent of a unit in the
  last place being \<open>-1074\<close> (the subnormal range). \<open>ilog2 a\<close> is the exponent \<open>e\<close>
  with \<open>2 powi e \<le> a < 2 powi (e + 1)\<close>, for positive \<open>a\<close>, and \<open>ulp_exp a\<close> the
  exponent of the unit in the last place of the doubles around \<open>a\<close>.
\<close>

definition ilog2 :: "rat \<Rightarrow> int" where
  "ilog2 a = (if 1 \<le> a then bitlen \<lfloor>a\<rfloor> - 1 else - bitlen (\<lceil>1 / a\<rceil> - 1))"

definition round_half_even :: "rat \<Rightarrow> int" where
  "round_half_even q =
     (let f = \<lfloor>q\<rfloor>; d = q - of_int f
      in if d < 1 / 2 then f
         else if 1 / 2 < d then f + 1
         else if even f then f else f + 1)"

definition ulp_exp :: "rat \<Rightarrow> int" where
  "ulp_exp a = max (ilog2 a - 52) (- 1074)"

definition fl :: "rat \<Rightarrow> rat" where
  "fl q =
     (if q = 0 then 0
      else let a = \<bar>q\<bar>;
               e = ulp_exp a;
               m = round_half_even (a / 2 powi e)
           in sgn q * (of_int m * 2 powi e))"

text \<open>
  A result that rounds to \<open>2 ^ 1024\<close> or beyond, that is, to a value whose exponent
  \<open>ilog2\<close> is at least 1024, is not a finite double. True division of integers raises
  \<open>OverflowError\<close> there. A float product or quotient becomes an infinity instead, on
  which the later \<open>round\<close> of \<open>calculate_auto_score\<close> raises \<open>OverflowError\<close>; the model
  raises at the operation that overflows, which leaves the function's result the same.
\<close>

definition to_double :: "rat \<Rightarrow> error + rat" where
  "to_double q =
     (let r = fl q in if r \<noteq> 0 \<and> 1024 \<le> ilog2 \<bar>r\<bar> then Inl OverflowError else Inr r)"

definition int_truediv :: "int \<Rightarrow> int \<Rightarrow> error + rat" where
  "int_truediv a b = (if b = 0 then Inl ZeroDivisionError else to_double (of_int a / of_int b))"

definition float_mul :: "rat \<Rightarrow> rat \<Rightarrow> error + rat" where
  "float_mul x y = to_double (x * y)"

definition float_div :: "rat \<Rightarrow> rat \<Rightarrow> error + rat" where
  "float_div x y = (if y = 0 then Inl ZeroDivisionError else to_double (x / y))"

text \<open>\<open>round(x)\<close> of a float is the nearest integer, ties to even; \<open>min(a, b)\<close> is
  \<open>b\<close> when \<open>b < a\<close> and \<open>a\<close> otherwise.\<close>

definition py_round :: "rat \<Rightarrow> int" where
  "py_round x = round_half_even x"

definition py_min :: "rat \<Rightarrow> rat \<Rightarrow> rat" where
  "py_min a b = (if b < a then b else a)"

definition bind_err :: "error + 'a \<Rightarrow> ('a \<Rightarrow> error + 'b) \<Rightarrow> error + 'b" where
  "bind_err r f = (case r of Inl e \<Rightarrow> Inl e | Inr x \<Rightarrow> f x)"

section \<open>The exam and the answers\<close>

text \<open>
  The rows that \<open>calculate_auto_score\<close> walks through: \<open>.all()\<close> of a related manager
  is the list of its rows. A subquestion has its integer primary key \<open>id\<close> and its
  \<open>correct_answer\<close>. The answers are a dictionary from strings to values.
\<close>

record subquestion =
  subq_id :: int
  correct_answer :: pyval

record question =
  subquestions :: "subquestion list"

record reading_passage =
  passage_questions :: "question list"

record listening_audio =
  audio_questions :: "question list"

record exam =
  section_type :: string
  reading_passages :: "reading_passage list"
  listening_audios :: "listening_audio list"

type_synonym answers = "string \<rightharpoonup> pyval"

section \<open>The automatic score\<close>

text \<open>A \<open>for\<close> loop over a list, threading the state and stopping at the first error.\<close>

primrec for_each :: "('a \<Rightarrow> 's \<Rightarrow> error + 's) \<Rightarrow> 'a list \<Rightarrow> 's \<Rightarrow> error + 's" where
  "for_each body [] s = Inr s"
| "for_each body (x # xs) s = (case body x s of Inl e \<Rightarrow> Inl e | Inr s' \<Rightarrow> for_each body xs s')"

text \<open>
  The key of a unit, \<open>f"q_{subq.id}"\<close>. The id is a primary key of the database, an
  integer of at most 64 bits, so its decimal form is far below the digit limit that
  \<open>str\<close> of an integer has (see \<open>int_str\<close> below).
\<close>

definition question_key :: "subquestion \<Rightarrow> string" where
  "question_key subq = ''q_'' @ py_str_int (subq_id subq)"

text \<open>
  The body of the innermost loop, on the state \<open>(correct_count, total_questions)\<close>:
  \<^verbatim>\<open>
  total_questions += 1
  question_key = f"q_{subq.id}"
  if question_key in answers:
      student_answer = normalize_answer(answers[question_key])
      correct_answer = normalize_answer(subq.correct_answer)
      if student_answer == correct_answer:
          correct_count += 1
  \<close>
\<close>

definition grade_subq :: "answers \<Rightarrow> subquestion \<Rightarrow> int \<times> int \<Rightarrow> error + int \<times> int" where
  "grade_subq answers subq st =
     (case st of (correct_count, total_questions) \<Rightarrow>
        let total_questions = total_questions + 1
        in case answers (question_key subq) of
             None \<Rightarrow> Inr (correct_count, total_questions)
           | Some v \<Rightarrow>
               bind_err (normalize_answer v) (\<lambda>student_answer.
               bind_err (normalize_answer (correct_answer subq)) (\<lambda>correct_answer.
                 if student_answer = correct_answer
                 then Inr (correct_count + 1, total_questions)
                 else Inr (correct_count, total_questions))))"

text \<open>
  The band of \<open>correct_count\<close> out of \<open>total_questions\<close>:
  \<^verbatim>\<open>
  percentage = (correct_count / total_questions) * 100
  raw_band = percentage / 10
  band = round(raw_band * 2) / 2
  return min(band, 9.0)
  \<close>
\<close>

definition band_score :: "int \<Rightarrow> int \<Rightarrow> error + rat" where
  "band_score correct_count total_questions =
     bind_err (int_truediv correct_count total_questions) (\<lambda>ratio.
     bind_err (float_mul ratio 100) (\<lambda>percentage.
     bind_err (float_div percentage 10) (\<lambda>raw_band.
     bind_err (float_mul raw_band 2) (\<lambda>doubled.
     bind_err (int_truediv (py_round doubled) 2) (\<lambda>band.
       Inr (py_min band 9))))))"

definition count_section :: "exam \<Rightarrow> answers \<Rightarrow> error + int \<times> int" where
  "count_section exam answers =
     (if section_type exam = ''reading'' then
        for_each (\<lambda>passage.
          for_each (\<lambda>question.
            for_each (grade_subq answers) (subquestions question))
          (passage_questions passage))
        (reading_passages exam) (0, 0)
      else if section_type exam = ''listening'' then
        for_each (\<lambda>audio.
          for_each (\<lambda>question.
            for_each (grade_subq answers) (subquestions question))
          (audio_questions audio))
        (listening_audios exam) (0, 0)
      else Inr (0, 0))"

definition calculate_auto_score :: "exam \<Rightarrow> answers \<Rightarrow> error + rat" where
  "calculate_auto_score exam answers =
     bind_err (count_section exam answers) (\<lambda>(correct_count, total_questions).
       if total_questions = 0 then Inr 0
       else band_score correct_count total_questions)"

section \<open>Leaf grading units\<close>

text \<open>
  The question set of an exam, flattened: the subquestions that the loops of
  \<open>calculate_auto_score\<close> reach for the exam's section type, in traversal order. A unit
  is counted correct when its key is in the answers and the submitted value and the
  unit's \<open>correct_answer\<close> normalize to the same token.
\<close>

definition leaf_units :: "exam \<Rightarrow> subquestion list" where
  "leaf_units exam =
     (if section_type exam = ''reading''
        then concat (map subquestions (concat (map passage_questions (reading_passages exam))))
      else if section_type exam = ''listening''
        then concat (map subquestions (concat (map audio_questions (listening_audios exam))))
      else [])"

definition counted_correct :: "answers \<Rightarrow> subquestion \<Rightarrow> bool" where
  "counted_correct answers subq =
     (case answers (question_key subq) of
        None \<Rightarrow> False
      | Some v \<Rightarrow> normalize_answer v = normalize_answer (correct_answer subq))"

definition total_units :: "exam \<Rightarrow> int" where
  "total_units exam = int (length (leaf_units exam))"

definition correct_units :: "exam \<Rightarrow> answers \<Rightarrow> int" where
  "correct_units exam answers = int (length (filter (counted_correct answers) (leaf_units exam)))"

text \<open>
  The score as one expression on the two counts, with the operations in the order of the
  source, \<open>min(round((((correct / total) * 100) / 10) * 2) / 2, 9.0)\<close>, every
  operation rounding to a double.
\<close>

definition source_formula :: "int \<Rightarrow> int \<Rightarrow> rat" where
  "source_formula correct_count total_questions =
     py_min (fl (of_int (py_round
       (fl (fl (fl (fl (of_int correct_count / of_int total_questions) * 100) / 10) * 2))) / 2)) 9"


text \<open>The variable \<open>band\<close> of the source, before \<open>min(band, 9.0)\<close>.\<close>

definition unclamped_band :: "int \<Rightarrow> int \<Rightarrow> rat" where
  "unclamped_band correct_count total_questions =
     fl (of_int (py_round
       (fl (fl (fl (fl (of_int correct_count / of_int total_questions) * 100) / 10) * 2))) / 2)"

text \<open>The two counters after a run of the innermost loop over the units \<open>us\<close>.\<close>

definition tally :: "answers \<Rightarrow> subquestion list \<Rightarrow> int \<times> int \<Rightarrow> int \<times> int" where
  "tally answers us st =
     (fst st + int (length (filter (counted_correct answers) us)), snd st + int (length us))"

section \<open>Sample exams and submissions\<close>

text \<open>A reading exam of three units in two passages, and four submissions for it.\<close>

definition exam3 :: exam where
  "exam3 =
     \<lparr>section_type = ''reading'',
      reading_passages =
        [\<lparr>passage_questions =
            [\<lparr>subquestions =
                [\<lparr>subq_id = 1, correct_answer = PStr ''A''\<rparr>,
                 \<lparr>subq_id = 2, correct_answer = PStr ''B''\<rparr>]\<rparr>]\<rparr>,
         \<lparr>passage_questions =
            [\<lparr>subquestions = [\<lparr>subq_id = 3, correct_answer = PStr ''C''\<rparr>]\<rparr>]\<rparr>],
      listening_audios = []\<rparr>"

definition answers_one :: answers where
  "answers_one = [''q_1'' \<mapsto> PStr ''a'', ''q_3'' \<mapsto> PStr ''b'']"

definition answers_two :: answers where
  "answers_two = [''q_1'' \<mapsto> PStr ''a'', ''q_2'' \<mapsto> PList [PStr ''B'', PStr ''x'']]"

definition answers_all :: answers where
  "answers_all = [''q_1'' \<mapsto> PStr ''A'', ''q_2'' \<mapsto> PStr '' b '', ''q_3'' \<mapsto> PStr ''c2'']"

definition no_answers :: answers where
  "no_answers = Map.empty"

text \<open>An exam without units.\<close>

definition exam_empty :: exam where
  "exam_empty = \<lparr>section_type = ''reading'', reading_passages = [], listening_audios = []\<rparr>"



text \<open>A unit without a correct answer, and a submission of a blank for it.\<close>

definition unit_blank :: subquestion where
  "unit_blank = \<lparr>subq_id = 7, correct_answer = PNone\<rparr>"

definition answers_blank :: answers where
  "answers_blank = [''q_7'' \<mapsto> PStr '' '']"

section \<open>The normalizer on any string and any integer\<close>

text \<open>
  The model of \<open>normalize_answer\<close> above keeps to code points below 256 and treats \<open>str\<close>
  as total. A Python \<open>str\<close> holds any Unicode code point, and \<open>str\<close> of an integer
  raises \<open>ValueError\<close> when the integer has more than 4300 decimal digits (the default
  of \<open>sys.set_int_max_str_digits\<close> since CPython 3.11). The second model below covers
  both: a string is a list of code points, a scalar is \<open>None\<close>, a boolean, an integer or
  a string, and a value is a scalar or a list of scalars. Floats, tuples, dictionaries,
  other objects and lists inside lists are not values of it.
\<close>

type_synonym ustring = "nat list"

definition ustr :: "string \<Rightarrow> ustring" where
  "ustr s = map of_char s"

datatype pyatom = ANone | ABool bool | AInt int | AStr ustring

datatype pyobject = Scalar pyatom | Sequence "pyatom list"

fun atom_truthy :: "pyatom \<Rightarrow> bool" where
  "atom_truthy ANone = False"
| "atom_truthy (ABool b) = b"
| "atom_truthy (AInt i) = (i \<noteq> 0)"
| "atom_truthy (AStr s) = (s \<noteq> [])"

fun object_truthy :: "pyobject \<Rightarrow> bool" where
  "object_truthy (Scalar a) = atom_truthy a"
| "object_truthy (Sequence xs) = (xs \<noteq> [])"

text \<open>
  \<open>str\<close> of an integer: the decimal digits, with a minus sign for a negative one, and
  \<open>ValueError\<close> when there are more digits than \<open>max_str_digits\<close>.
\<close>

fun udigits10 :: "nat \<Rightarrow> ustring" where
  "udigits10 n = (if n < 10 then [48 + n] else udigits10 (n div 10) @ [48 + n mod 10])"

definition max_str_digits :: nat where
  "max_str_digits = 4300"

definition int_str :: "int \<Rightarrow> error + ustring" where
  "int_str i =
     (let ds = udigits10 (nat \<bar>i\<bar>)
      in if max_str_digits < length ds then Inl ValueError
         else Inr (if i < 0 then 45 # ds else ds))"

definition atom_str :: "pyatom \<Rightarrow> error + ustring" where
  "atom_str a =
     (case a of
        ANone \<Rightarrow> Inr (ustr ''None'')
      | ABool b \<Rightarrow> Inr (ustr (if b then ''True'' else ''False''))
      | AInt i \<Rightarrow> int_str i
      | AStr s \<Rightarrow> Inr s)"

text \<open>
  The code points for which \<open>isspace()\<close> holds, all of them, and \<open>lower()\<close> of a string
  of one code point (Unicode 14.0, as CPython 3.11 has it). Below 256 the rule is the one
  of \<open>py_lower_char\<close>. U+0130, the capital I with a dot above, is the only code point whose
  lower-casing is two code points, U+0069 and U+0307. Every other change is in
  \<open>lower_runs\<close>: an entry \<open>(first, last, step, delta)\<close> moves the code points \<open>first\<close>,
  \<open>first + step\<close>, ... up to \<open>last\<close> by \<open>delta\<close>.
\<close>

definition u_isspace :: "nat \<Rightarrow> bool" where
  "u_isspace c =
     ((9 \<le> c \<and> c \<le> 13) \<or> (28 \<le> c \<and> c \<le> 32) \<or> c = 133 \<or> c = 160 \<or> c = 5760
      \<or> (8192 \<le> c \<and> c \<le> 8202) \<or> c = 8232 \<or> c = 8233 \<or> c = 8239 \<or> c = 8287 \<or> c = 12288)"

definition u_strip :: "ustring \<Rightarrow> ustring" where
  "u_strip s = rev (dropWhile u_isspace (rev (dropWhile u_isspace s)))"

definition lower_runs :: "(nat \<times> nat \<times> nat \<times> int) list" where
  "lower_runs =
   [(256, 302, 2, 1), (306, 310, 2, 1), (313, 327, 2, 1), (330, 374, 2, 1),
     (376, 376, 1, - 121), (377, 381, 2, 1), (385, 385, 1, 210), (386, 388, 2, 1),
     (390, 390, 1, 206), (391, 391, 1, 1), (393, 394, 1, 205), (395, 395, 1, 1),
     (398, 398, 1, 79), (399, 399, 1, 202), (400, 400, 1, 203), (401, 401, 1, 1),
     (403, 403, 1, 205), (404, 404, 1, 207), (406, 406, 1, 211), (407, 407, 1, 209),
     (408, 408, 1, 1), (412, 412, 1, 211), (413, 413, 1, 213), (415, 415, 1, 214),
     (416, 420, 2, 1), (422, 422, 1, 218), (423, 423, 1, 1), (425, 425, 1, 218),
     (428, 428, 1, 1), (430, 430, 1, 218), (431, 431, 1, 1), (433, 434, 1, 217),
     (435, 437, 2, 1), (439, 439, 1, 219), (440, 440, 1, 1), (444, 444, 1, 1),
     (452, 452, 1, 2), (453, 453, 1, 1), (455, 455, 1, 2), (456, 456, 1, 1), (458, 458, 1, 2),
     (459, 475, 2, 1), (478, 494, 2, 1), (497, 497, 1, 2), (498, 500, 2, 1),
     (502, 502, 1, - 97), (503, 503, 1, - 56), (504, 542, 2, 1), (544, 544, 1, - 130),
     (546, 562, 2, 1), (570, 570, 1, 10795), (571, 571, 1, 1), (573, 573, 1, - 163),
     (574, 574, 1, 10792), (577, 577, 1, 1), (579, 579, 1, - 195), (580, 580, 1, 69),
     (581, 581, 1, 71), (582, 590, 2, 1), (880, 882, 2, 1), (886, 886, 1, 1),
     (895, 895, 1, 116), (902, 902, 1, 38), (904, 906, 1, 37), (908, 908, 1, 64),
     (910, 911, 1, 63), (913, 929, 1, 32), (931, 939, 1, 32), (975, 975, 1, 8),
     (984, 1006, 2, 1), (1012, 1012, 1, - 60), (1015, 1015, 1, 1), (1017, 1017, 1, - 7),
     (1018, 1018, 1, 1), (1021, 1023, 1, - 130), (1024, 1039, 1, 80), (1040, 1071, 1, 32),
     (1120, 1152, 2, 1), (1162, 1214, 2, 1), (1216, 1216, 1, 15), (1217, 1229, 2, 1),
     (1232, 1326, 2, 1), (1329, 1366, 1, 48), (4256, 4293, 1, 7264), (4295, 4295, 1, 7264),
     (4301, 4301, 1, 7264), (5024, 5103, 1, 38864), (5104, 5109, 1, 8),
     (7312, 7354, 1, - 3008), (7357, 7359, 1, - 3008), (7680, 7828, 2, 1),
     (7838, 7838, 1, - 7615), (7840, 7934, 2, 1), (7944, 7951, 1, - 8), (7960, 7965, 1, - 8),
     (7976, 7983, 1, - 8), (7992, 7999, 1, - 8), (8008, 8013, 1, - 8), (8025, 8031, 2, - 8),
     (8040, 8047, 1, - 8), (8072, 8079, 1, - 8), (8088, 8095, 1, - 8), (8104, 8111, 1, - 8),
     (8120, 8121, 1, - 8), (8122, 8123, 1, - 74), (8124, 8124, 1, - 9), (8136, 8139, 1, - 86),
     (8140, 8140, 1, - 9), (8152, 8153, 1, - 8), (8154, 8155, 1, - 100), (8168, 8169, 1, - 8),
     (8170, 8171, 1, - 112), (8172, 8172, 1, - 7), (8184, 8185, 1, - 128),
     (8186, 8187, 1, - 126), (8188, 8188, 1, - 9), (8486, 8486, 1, - 7517),
     (8490, 8490, 1, - 8383), (8491, 8491, 1, - 8262), (8498, 8498, 1, 28),
     (8544, 8559, 1, 16), (8579, 8579, 1, 1), (9398, 9423, 1, 26), (11264, 11311, 1, 48),
     (11360, 11360, 1, 1), (11362, 11362, 1, - 10743), (11363, 11363, 1, - 3814),
     (11364, 11364, 1, - 10727), (11367, 11371, 2, 1), (11373, 11373, 1, - 10780),
     (11374, 11374, 1, - 10749), (11375, 11375, 1, - 10783), (11376, 11376, 1, - 10782),
     (11378, 11378, 1, 1), (11381, 11381, 1, 1), (11390, 11391, 1, - 10815),
     (11392, 11490, 2, 1), (11499, 11501, 2, 1), (11506, 11506, 1, 1), (42560, 42604, 2, 1),
     (42624, 42650, 2, 1), (42786, 42798, 2, 1), (42802, 42862, 2, 1), (42873, 42875, 2, 1),
     (42877, 42877, 1, - 35332), (42878, 42886, 2, 1), (42891, 42891, 1, 1),
     (42893, 42893, 1, - 42280), (42896, 42898, 2, 1), (42902, 42920, 2, 1),
     (42922, 42922, 1, - 42308), (42923, 42923, 1, - 42319), (42924, 42924, 1, - 42315),
     (42925, 42925, 1, - 42305), (42926, 42926, 1, - 42308), (42928, 42928, 1, - 42258),
     (42929, 42929, 1, - 42282), (42930, 42930, 1, - 42261), (42931, 42931, 1, 928),
     (42932, 42946, 2, 1), (42948, 42948, 1, - 48), (42949, 42949, 1, - 42307),
     (42950, 42950, 1, - 35384), (42951, 42953, 2, 1), (42960, 42960, 1, 1),
     (42966, 42968, 2, 1), (42997, 42997, 1, 1), (65313, 65338, 1, 32), (66560, 66599, 1, 40),
     (66736, 66771, 1, 40), (66928, 66938, 1, 39), (66940, 66954, 1, 39),
     (66956, 66962, 1, 39), (66964, 66965, 1, 39), (68736, 68786, 1, 64),
     (71840, 71871, 1, 32), (93760, 93791, 1, 32), (125184, 125217, 1, 34)]"

definition u_lower_char :: "nat \<Rightarrow> ustring" where
  "u_lower_char c =
     (if c < 256 then
        (if (65 \<le> c \<and> c \<le> 90) \<or> (192 \<le> c \<and> c \<le> 222 \<and> c \<noteq> 215) then [c + 32] else [c])
      else if c = 304 then [105, 775]
      else case find (\<lambda>(a, b, s, d). a \<le> c \<and> c \<le> b \<and> (c - a) mod s = 0) lower_runs of
             None \<Rightarrow> [c]
           | Some (a, b, s, d) \<Rightarrow> [nat (int c + d)])"

text \<open>
  Lower-casing code point by code point. \<open>str.lower()\<close> of a longer string differs from
  it only at a capital sigma that follows a cased letter, so never at the first code
  point of the result.
\<close>

definition lower_pointwise :: "ustring \<Rightarrow> ustring" where
  "lower_pointwise s = concat (map u_lower_char s)"

definition seq_first :: "pyatom list \<Rightarrow> error + pyatom" where
  "seq_first xs = (case xs of [] \<Rightarrow> Inl IndexError | x # _ \<Rightarrow> Inr x)"

definition normalize_answer_wide :: "pyobject \<Rightarrow> error + ustring" where
  "normalize_answer_wide ans =
     (if \<not> object_truthy ans then Inr []
      else case (case ans of Sequence xs \<Rightarrow> seq_first xs | Scalar a \<Rightarrow> Inr a) of
             Inl e \<Rightarrow> Inl e
           | Inr a \<Rightarrow>
               (case atom_str a of
                  Inl e \<Rightarrow> Inl e
                | Inr s \<Rightarrow>
                    (case u_strip s of
                       [] \<Rightarrow> Inr []
                     | c # _ \<Rightarrow> Inr (lower_pointwise [c]))))"

text \<open>An integer is within the digit limit when \<open>str\<close> accepts it.\<close>

definition atom_fits :: "pyatom \<Rightarrow> bool" where
  "atom_fits a = (case a of AInt i \<Rightarrow> length (udigits10 (nat \<bar>i\<bar>)) \<le> max_str_digits | _ \<Rightarrow> True)"

text \<open>A value of the first model as a value of the second, where it is one.\<close>

fun widen_atom :: "pyval \<Rightarrow> pyatom option" where
  "widen_atom PNone = Some ANone"
| "widen_atom (PBool b) = Some (ABool b)"
| "widen_atom (PInt i) = Some (AInt i)"
| "widen_atom (PStr s) = Some (AStr (ustr s))"
| "widen_atom (PList xs) = None"

fun widen_atoms :: "pyval list \<Rightarrow> pyatom list option" where
  "widen_atoms [] = Some []"
| "widen_atoms (x # xs) =
     (case widen_atom x of
        None \<Rightarrow> None
      | Some a \<Rightarrow> (case widen_atoms xs of None \<Rightarrow> None | Some as \<Rightarrow> Some (a # as)))"

text \<open>The string \<open>Istanbul\<close> with a dotted capital I, and an integer of 4301 digits.\<close>

definition istanbul :: ustring where
  "istanbul = 304 # ustr ''stanbul''"

definition huge_int :: int where
  "huge_int = 10 ^ 4300"

section \<open>Rounding to a double\<close>

subsection \<open>The binary exponent\<close>

lemma bitlen_pos: "0 < x \<Longrightarrow> 1 \<le> bitlen x"
  using bitlen_eq_zero_iff [of x] bitlen_nonneg [of x] by linarith

lemma powi_bitlen: "(2::rat) powi bitlen x = 2 ^ nat (bitlen x)"
  by (rule power_int_nonneg_exp) (rule bitlen_nonneg)

lemma ilog2_lower:
  assumes "0 < a"
  shows "2 powi ilog2 a \<le> a"
proof (cases "1 \<le> a")
  case True
  define f where "f = \<lfloor>a\<rfloor>"
  have f1: "1 \<le> f" using True by (simp add: f_def le_floor_iff)
  have b: "2 ^ nat (bitlen f - 1) \<le> f" using bitlen_bounds [of f] f1 by simp
  have e: "0 \<le> bitlen f - 1" using bitlen_pos [of f] f1 by simp
  have "(2::rat) powi (bitlen f - 1) = 2 ^ nat (bitlen f - 1)"
    using e by (rule power_int_nonneg_exp)
  also have "\<dots> = of_int (2 ^ nat (bitlen f - 1))" by simp
  also have "\<dots> \<le> of_int f" using b by (simp only: of_int_le_iff)
  also have "\<dots> \<le> a" by (simp add: f_def)
  finally show ?thesis using True by (simp add: ilog2_def f_def)
next
  case False
  define n where "n = \<lceil>1 / a\<rceil> - 1"
  have inv: "1 < 1 / a" using False assms by simp
  have n1: "1 \<le> n" using inv by (simp add: n_def less_ceiling_iff)
  have b: "n < 2 ^ nat (bitlen n)" using bitlen_bounds [of n] n1 by simp
  have b': "n + 1 \<le> 2 ^ nat (bitlen n)" using b by simp
  have "1 / a \<le> of_int (n + 1)" by (simp add: n_def)
  also have "\<dots> \<le> of_int (2 ^ nat (bitlen n))" using b' by (simp only: of_int_le_iff)
  finally have "1 / a \<le> 2 ^ nat (bitlen n)" by simp
  then have "1 / 2 ^ nat (bitlen n) \<le> a"
    using assms by (simp add: field_simps)
  moreover have "(2::rat) powi (- bitlen n) = 1 / 2 ^ nat (bitlen n)"
    by (simp add: power_int_minus_divide powi_bitlen)
  ultimately show ?thesis using False by (simp add: ilog2_def n_def)
qed

lemma ilog2_upper:
  assumes "0 < a"
  shows "a < 2 powi (ilog2 a + 1)"
proof (cases "1 \<le> a")
  case True
  define f where "f = \<lfloor>a\<rfloor>"
  have f1: "1 \<le> f" using True by (simp add: f_def le_floor_iff)
  have b: "f + 1 \<le> 2 ^ nat (bitlen f)" using bitlen_bounds [of f] f1 by simp
  have "a < of_int (f + 1)" using floor_correct [of a] by (simp add: f_def)
  also have "\<dots> \<le> of_int (2 ^ nat (bitlen f))" using b by (simp only: of_int_le_iff)
  also have "\<dots> = 2 ^ nat (bitlen f)" by simp
  also have "\<dots> = (2::rat) powi (bitlen f)"
    by (simp add: powi_bitlen)
  finally show ?thesis using True by (simp add: ilog2_def f_def)
next
  case False
  define n where "n = \<lceil>1 / a\<rceil> - 1"
  have inv: "1 < 1 / a" using False assms by simp
  have n1: "1 \<le> n" using inv by (simp add: n_def less_ceiling_iff)
  have b: "2 ^ nat (bitlen n - 1) \<le> n" using bitlen_bounds [of n] n1 by simp
  have e: "0 \<le> bitlen n - 1" using bitlen_pos [of n] n1 by simp
  have "(2::rat) ^ nat (bitlen n - 1) = of_int (2 ^ nat (bitlen n - 1))" by simp
  also have "\<dots> \<le> of_int n" using b by (simp only: of_int_le_iff)
  also have "\<dots> < 1 / a" unfolding n_def by linarith
  finally have "(2::rat) ^ nat (bitlen n - 1) < 1 / a" .
  then have "a < 1 / 2 ^ nat (bitlen n - 1)"
    using assms by (simp add: field_simps)
  moreover have "(2::rat) powi (- bitlen n + 1) = 1 / 2 ^ nat (bitlen n - 1)"
    using e power_int_minus_divide [of "2::rat" "bitlen n - 1"]
    by (simp add: power_int_nonneg_exp)
  ultimately show ?thesis using False by (simp add: ilog2_def n_def)
qed

lemma ilog2_mono:
  assumes "0 < a" and "a \<le> b"
  shows "ilog2 a \<le> ilog2 b"
proof -
  have "(2::rat) powi ilog2 a \<le> a" using assms(1) by (rule ilog2_lower)
  also have "\<dots> \<le> b" by fact
  also have "\<dots> < 2 powi (ilog2 b + 1)" using assms by (intro ilog2_upper) simp
  finally have "(2::rat) powi ilog2 a < 2 powi (ilog2 b + 1)" .
  then have "\<not> ilog2 b + 1 \<le> ilog2 a"
    using power_int_increasing [of "ilog2 b + 1" "ilog2 a" "2::rat"] by auto
  then show ?thesis by simp
qed

subsection \<open>Rounding to the nearest integer\<close>

lemma round_half_even_of_int: "round_half_even (of_int n) = n"
  by (simp add: round_half_even_def)

lemma round_half_even_bounds: "\<lfloor>q\<rfloor> \<le> round_half_even q \<and> round_half_even q \<le> \<lfloor>q\<rfloor> + 1"
  by (simp add: round_half_even_def Let_def)

lemma round_half_even_mono:
  assumes "q \<le> r"
  shows "round_half_even q \<le> round_half_even r"
proof (cases "\<lfloor>q\<rfloor> = \<lfloor>r\<rfloor>")
  case True
  then show ?thesis using assms by (auto simp: round_half_even_def Let_def)
next
  case False
  then have "\<lfloor>q\<rfloor> + 1 \<le> \<lfloor>r\<rfloor>" using floor_mono [OF assms] by linarith
  then show ?thesis
    using round_half_even_bounds [of q] round_half_even_bounds [of r] by linarith
qed

lemma round_half_even_nonneg: "0 \<le> q \<Longrightarrow> 0 \<le> round_half_even q"
  using round_half_even_mono [of 0 q] round_half_even_of_int [of 0] by simp

subsection \<open>Monotonicity of rounding to a double\<close>

lemma fl_pos: "0 < q \<Longrightarrow> fl q = of_int (round_half_even (q / 2 powi ulp_exp q)) * 2 powi ulp_exp q"
  by (simp add: fl_def Let_def)

lemma fl_nonneg: "0 \<le> q \<Longrightarrow> 0 \<le> fl q"
proof (cases "q = 0")
  case True
  then show ?thesis by (simp add: fl_def)
next
  case False
  assume "0 \<le> q"
  with False have q: "0 < q" by simp
  have "0 \<le> q / 2 powi ulp_exp q" using q by simp
  then have "0 \<le> round_half_even (q / 2 powi ulp_exp q)" by (rule round_half_even_nonneg)
  then show ?thesis using q by (simp add: fl_pos)
qed

lemma fl_le_grid:
  assumes "0 < q" and "q \<le> of_int m * 2 powi ulp_exp q"
  shows "fl q \<le> of_int m * 2 powi ulp_exp q"
proof -
  have p: "(0::rat) < 2 powi ulp_exp q" by simp
  have "q / 2 powi ulp_exp q \<le> of_int m" using assms(2) p by (simp add: pos_divide_le_eq)
  then have "round_half_even (q / 2 powi ulp_exp q) \<le> m"
    using round_half_even_mono [of "q / 2 powi ulp_exp q" "of_int m"]
    by (simp add: round_half_even_of_int)
  then have "(of_int (round_half_even (q / 2 powi ulp_exp q)) :: rat) \<le> of_int m" by simp
  then show ?thesis using p assms(1) by (simp add: fl_pos)
qed

lemma fl_ge_grid:
  assumes "0 < q" and "of_int m * 2 powi ulp_exp q \<le> q"
  shows "of_int m * 2 powi ulp_exp q \<le> fl q"
proof -
  have p: "(0::rat) < 2 powi ulp_exp q" by simp
  have "of_int m \<le> q / 2 powi ulp_exp q" using assms(2) p by (simp add: pos_le_divide_eq)
  then have "m \<le> round_half_even (q / 2 powi ulp_exp q)"
    using round_half_even_mono [of "of_int m" "q / 2 powi ulp_exp q"]
    by (simp add: round_half_even_of_int)
  then have "(of_int m :: rat) \<le> of_int (round_half_even (q / 2 powi ulp_exp q))" by simp
  then show ?thesis using p assms(1) by (simp add: fl_pos)
qed

lemma ulp_exp_mono: "0 < a \<Longrightarrow> a \<le> b \<Longrightarrow> ulp_exp a \<le> ulp_exp b"
  using ilog2_mono [of a b] by (simp add: ulp_exp_def)

lemma powi_split: "(2::rat) powi (a + b) = 2 powi a * 2 powi b"
  by (rule power_int_add) simp

lemma fl_mono:
  assumes "0 \<le> q" and "q \<le> r"
  shows "fl q \<le> fl r"
proof (cases "q = 0")
  case True
  then show ?thesis using fl_nonneg [of r] assms by (simp add: fl_def)
next
  case False
  with assms have q: "0 < q" and r: "0 < r" by simp_all
  have le: "ulp_exp q \<le> ulp_exp r" using q assms(2) by (rule ulp_exp_mono)
  show ?thesis
  proof (cases "ulp_exp q = ulp_exp r")
    case True
    have p: "(0::rat) < 2 powi ulp_exp r" by simp
    have "q / 2 powi ulp_exp r \<le> r / 2 powi ulp_exp r"
      using assms(2) p by (simp add: divide_right_mono)
    then have "round_half_even (q / 2 powi ulp_exp r) \<le> round_half_even (r / 2 powi ulp_exp r)"
      by (rule round_half_even_mono)
    then have "(of_int (round_half_even (q / 2 powi ulp_exp r)) :: rat)
        \<le> of_int (round_half_even (r / 2 powi ulp_exp r))" by simp
    then show ?thesis using p q r True by (simp add: fl_pos)
  next
    case False
    with le have lt: "ulp_exp q < ulp_exp r" by simp
    then have er: "ulp_exp r = ilog2 r - 52" unfolding ulp_exp_def by linarith
    have eq: "ilog2 q - 52 \<le> ulp_exp q" by (simp add: ulp_exp_def)
    define U where "U = (2::rat) powi ilog2 r"
    define k where "k = ilog2 r - ulp_exp q"
    have k: "0 \<le> k" using lt er by (simp add: k_def)
    have "ilog2 q + 1 \<le> ilog2 r" using lt er eq by simp
    then have "(2::rat) powi (ilog2 q + 1) \<le> U"
      unfolding U_def by (rule power_int_increasing) simp
    then have qU: "q \<le> U" using ilog2_upper [OF q] by simp
    have Uq: "U = of_int (2 ^ nat k) * 2 powi ulp_exp q"
    proof -
      have "U = 2 powi (k + ulp_exp q)" by (simp add: U_def k_def)
      also have "\<dots> = 2 powi k * 2 powi ulp_exp q" by (rule powi_split)
      also have "(2::rat) powi k = of_int (2 ^ nat k)" using k by (simp add: power_int_nonneg_exp)
      finally show ?thesis .
    qed
    have "fl q \<le> of_int (2 ^ nat k) * 2 powi ulp_exp q"
      using q qU unfolding Uq by (rule fl_le_grid)
    then have 1: "fl q \<le> U" by (simp only: Uq)
    have Ur: "U = of_int (2 ^ 52) * 2 powi ulp_exp r"
    proof -
      have "U = 2 powi (52 + ulp_exp r)" by (simp add: U_def er)
      also have "\<dots> = 2 powi 52 * 2 powi ulp_exp r" by (rule powi_split)
      finally show ?thesis by simp
    qed
    have "U \<le> r" unfolding U_def using r by (rule ilog2_lower)
    then have "of_int (2 ^ 52) * 2 powi ulp_exp r \<le> fl r"
      using r unfolding Ur by (intro fl_ge_grid) 
    then have 2: "U \<le> fl r" by (simp only: Ur)
    from 1 2 show ?thesis by simp
  qed
qed

lemma ilog2_small: 
  assumes "0 < r" and "r \<le> 100"
  shows "ilog2 r < 1024"
proof (rule ccontr)
  assume "\<not> ilog2 r < 1024"
  then have "(2::rat) powi 1024 \<le> 2 powi ilog2 r" by (intro power_int_increasing) simp_all
  also have "\<dots> \<le> r" using assms(1) by (rule ilog2_lower)
  finally have "(2::rat) ^ 1024 \<le> 100" using assms(2) by simp
  then show False by simp
qed

lemma fl_100: "fl 100 = 100"
  by code_simp

lemma fl_1: "fl 1 = 1"
  by code_simp

lemma fl_10: "fl 10 = 10"
  by code_simp

lemma fl_20: "fl 20 = 20"
  by code_simp

lemma fl_9: "fl 9 = 9"
  by code_simp


lemma to_double_small:
  assumes "0 \<le> q" and "q \<le> 100"
  shows "to_double q = Inr (fl q)"
proof -
  have "fl q \<le> 100" using fl_mono [OF assms] by (simp add: fl_100)
  moreover have "0 \<le> fl q" using assms(1) by (rule fl_nonneg)
  ultimately have "fl q = 0 \<or> ilog2 \<bar>fl q\<bar> < 1024"
    using ilog2_small [of "fl q"] by (cases "fl q = 0") simp_all
  then show ?thesis by (auto simp: to_double_def Let_def)
qed

section \<open>The band of two counts\<close>

lemma fl_half_exact: "\<forall>n \<in> set [0..20]. fl (of_int n / 2) = of_int n / 2"
  by code_simp

lemma doubled_bounds:
  assumes "0 \<le> c" and "c \<le> t" and "0 < t"
  defines "ratio \<equiv> fl (of_int c / of_int t)"
  defines "percentage \<equiv> fl (ratio * 100)"
  defines "raw_band \<equiv> fl (percentage / 10)"
  defines "doubled \<equiv> fl (raw_band * 2)"
  shows "0 \<le> ratio \<and> ratio \<le> 1" and "0 \<le> percentage \<and> percentage \<le> 100"
    and "0 \<le> raw_band \<and> raw_band \<le> 10" and "0 \<le> doubled \<and> doubled \<le> 20"
proof -
  have q: "(0::rat) \<le> of_int c / of_int t" "(of_int c / of_int t :: rat) \<le> 1"
    using assms(1-3) by simp_all
  show 1: "0 \<le> ratio \<and> ratio \<le> 1"
    unfolding ratio_def using fl_nonneg [OF q(1)] fl_mono [OF q] by (simp add: fl_1)
  then have "0 \<le> ratio * 100" "ratio * 100 \<le> 100" by simp_all
  then show 2: "0 \<le> percentage \<and> percentage \<le> 100"
    unfolding percentage_def using fl_nonneg [of "ratio * 100"] fl_mono [of "ratio * 100" 100]
    by (simp add: fl_100)
  then have "0 \<le> percentage / 10" "percentage / 10 \<le> 10" by simp_all
  then show 3: "0 \<le> raw_band \<and> raw_band \<le> 10"
    unfolding raw_band_def using fl_nonneg [of "percentage / 10"] fl_mono [of "percentage / 10" 10]
    by (simp add: fl_10)
  then have "0 \<le> raw_band * 2" "raw_band * 2 \<le> 20" by simp_all
  then show "0 \<le> doubled \<and> doubled \<le> 20"
    unfolding doubled_def using fl_nonneg [of "raw_band * 2"] fl_mono [of "raw_band * 2" 20]
    by (simp add: fl_20)
qed

lemma rounded_bounds:
  assumes "0 \<le> c" and "c \<le> t" and "0 < t"
  shows "0 \<le> py_round (fl (fl (fl (fl (of_int c / of_int t) * 100) / 10) * 2))"
    and "py_round (fl (fl (fl (fl (of_int c / of_int t) * 100) / 10) * 2)) \<le> 20"
proof -
  let ?d = "fl (fl (fl (fl (of_int c / of_int t) * 100) / 10) * 2)"
  have d: "0 \<le> ?d \<and> ?d \<le> 20" using assms by (rule doubled_bounds(4))
  show "0 \<le> py_round ?d" unfolding py_round_def using d by (intro round_half_even_nonneg) simp
  have "round_half_even ?d \<le> round_half_even (of_int 20)"
    using d by (intro round_half_even_mono) simp
  then show "py_round ?d \<le> 20" unfolding py_round_def by (simp only: round_half_even_of_int)
qed

lemma band_score_eq:
  assumes "0 \<le> c" and "c \<le> t" and "0 < t"
  shows "band_score c t = Inr (source_formula c t)"
proof -
  define ratio where "ratio = fl (of_int c / of_int t)"
  define percentage where "percentage = fl (ratio * 100)"
  define raw_band where "raw_band = fl (percentage / 10)"
  define doubled where "doubled = fl (raw_band * 2)"
  have b1: "0 \<le> ratio" "ratio \<le> 1"
    using doubled_bounds(1) [OF assms] by (simp_all only: ratio_def)
  have b2: "0 \<le> percentage" "percentage \<le> 100"
    using doubled_bounds(2) [OF assms] by (simp_all only: percentage_def ratio_def)
  have b3: "0 \<le> raw_band" "raw_band \<le> 10"
    using doubled_bounds(3) [OF assms] by (simp_all only: raw_band_def percentage_def ratio_def)
  have q1: "(of_int c / of_int t :: rat) \<le> 1" using assms by simp
  have q: "(0::rat) \<le> of_int c / of_int t" "(of_int c / of_int t :: rat) \<le> 100"
    using assms apply simp using q1 by linarith
  have 1: "int_truediv c t = Inr ratio"
    using assms(3) to_double_small [OF q] by (simp add: int_truediv_def ratio_def)
  have 2: "float_mul ratio 100 = Inr percentage"
    using b1 to_double_small [of "ratio * 100"] by (simp add: float_mul_def percentage_def)
  have 3: "float_div percentage 10 = Inr raw_band"
    using b2 to_double_small [of "percentage / 10"] by (simp add: float_div_def raw_band_def)
  have 4: "float_mul raw_band 2 = Inr doubled"
    using b3 to_double_small [of "raw_band * 2"] by (simp add: float_mul_def doubled_def)
  have n: "0 \<le> py_round doubled" "py_round doubled \<le> 20"
    using rounded_bounds [OF assms]
    by (simp_all add: doubled_def raw_band_def percentage_def ratio_def)
  have "(0::rat) \<le> of_int (py_round doubled) / 2" "(of_int (py_round doubled) / 2 :: rat) \<le> 100"
    using n by simp_all
  then have 5: "int_truediv (py_round doubled) 2 = Inr (fl (of_int (py_round doubled) / 2))"
    using to_double_small [of "of_int (py_round doubled) / 2"] by (simp add: int_truediv_def)
  have "band_score c t = Inr (py_min (fl (of_int (py_round doubled) / 2)) 9)"
    by (simp only: band_score_def 1 2 3 4 5 bind_err_def sum.case)
  also have "\<dots> = Inr (source_formula c t)"
    by (simp only: source_formula_def doubled_def raw_band_def percentage_def ratio_def)
  finally show ?thesis .
qed

lemma source_formula_range:
  assumes "0 \<le> c" and "c \<le> t" and "0 < t"
  shows "\<exists>k\<in>{0..18}. source_formula c t = of_int k / 2"
proof -
  define n where "n = py_round (fl (fl (fl (fl (of_int c / of_int t) * 100) / 10) * 2))"
  have n: "0 \<le> n" "n \<le> 20" using rounded_bounds [OF assms] by (simp_all add: n_def)
  then have "n \<in> set [0..20]" by simp
  then have ex: "fl (of_int n / 2) = of_int n / 2" using fl_half_exact by blast
  have s: "source_formula c t = py_min (of_int n / 2) 9"
    by (simp add: source_formula_def n_def [symmetric] ex)
  show ?thesis
  proof (cases "n \<le> 18")
    case True
    then have "source_formula c t = of_int n / 2" by (simp add: s py_min_def)
    then show ?thesis using n True by auto
  next
    case False
    then have "source_formula c t = of_int 18 / 2" by (simp add: s py_min_def)
    then show ?thesis by (intro bexI [of _ 18]) simp_all
  qed
qed

lemma source_formula_all: "0 < t \<Longrightarrow> source_formula t t = 9"
proof -
  assume "0 < t"
  then have "(of_int t / of_int t :: rat) = 1" by simp
  moreover have "py_round 20 = 20" using round_half_even_of_int [of 20] by (simp add: py_round_def)
  ultimately show ?thesis
    by (simp add: source_formula_def fl_1 fl_100 fl_10 fl_20 py_min_def)
qed

lemma source_formula_clamp: "source_formula c t = py_min (unclamped_band c t) 9"
  by (simp add: source_formula_def unclamped_band_def)

lemma unclamped_band_all: "0 < t \<Longrightarrow> unclamped_band t t = 10"
proof -
  assume "0 < t"
  then have "(of_int t / of_int t :: rat) = 1" by simp
  moreover have "py_round 20 = 20" using round_half_even_of_int [of 20] by (simp add: py_round_def)
  ultimately show ?thesis
    by (simp add: unclamped_band_def fl_1 fl_100 fl_10 fl_20)
qed

lemma source_formula_1_3: "source_formula 1 3 = 7 / 2"
  by code_simp

lemma source_formula_2_3: "source_formula 2 3 = 13 / 2"
  by code_simp



section \<open>The counting loops\<close>

lemma normalize_answer_total: "\<exists>s. normalize_answer v = Inr s"
  by (cases v) (auto simp: normalize_answer_def list_first_def split: list.splits)

lemma grade_subq_eq:
  "grade_subq answers u (c, t) = Inr (if counted_correct answers u then c + 1 else c, t + 1)"
proof (cases "answers (question_key u)")
  case None
  then show ?thesis by (simp add: grade_subq_def counted_correct_def)
next
  case (Some v)
  obtain s1 where s1: "normalize_answer v = Inr s1" using normalize_answer_total by blast
  obtain s2 where s2: "normalize_answer (correct_answer u) = Inr s2"
    using normalize_answer_total by blast
  show ?thesis using Some by (simp add: grade_subq_def counted_correct_def bind_err_def s1 s2)
qed

lemma tally_Nil: "tally answers [] st = st"
  by (simp add: tally_def)

lemma tally_append: "tally answers (us @ vs) st = tally answers vs (tally answers us st)"
  by (simp add: tally_def)

lemma for_each_grade: "for_each (grade_subq answers) us st = Inr (tally answers us st)"
proof (induction us arbitrary: st)
  case Nil
  show ?case by (simp add: tally_def)
next
  case (Cons u us)
  obtain c t where st: "st = (c, t)" by (cases st)
  show ?case by (simp add: st grade_subq_eq Cons.IH) (simp add: tally_def)
qed

lemma for_each_concat:
  assumes "\<And>x st. body x st = Inr (tally answers (f x) st)"
  shows "for_each body xs st = Inr (tally answers (concat (map f xs)) st)"
proof (induction xs arbitrary: st)
  case Nil
  show ?case by (simp add: tally_Nil)
next
  case (Cons x xs)
  have "for_each body (x # xs) st = for_each body xs (tally answers (f x) st)"
    by (simp only: for_each.simps assms [of x st] sum.case)
  also have "\<dots> = Inr (tally answers (concat (map f xs)) (tally answers (f x) st))"
    by (rule Cons.IH)
  finally show ?case by (simp add: tally_append)
qed

lemma count_section_eq:
  "count_section exam answers = Inr (correct_units exam answers, total_units exam)"
proof -
  have q: "\<And>qs st. for_each (\<lambda>question. for_each (grade_subq answers) (subquestions question)) qs st
      = Inr (tally answers (concat (map subquestions qs)) st)"
    by (rule for_each_concat) (rule for_each_grade)
  have r: "\<And>ps st. for_each (\<lambda>passage.
        for_each (\<lambda>question. for_each (grade_subq answers) (subquestions question))
          (passage_questions passage)) ps st
      = Inr (tally answers (concat (map (\<lambda>p. concat (map subquestions (passage_questions p))) ps)) st)"
    by (rule for_each_concat) (rule q)
  have l: "\<And>as st. for_each (\<lambda>audio.
        for_each (\<lambda>question. for_each (grade_subq answers) (subquestions question))
          (audio_questions audio)) as st
      = Inr (tally answers (concat (map (\<lambda>a. concat (map subquestions (audio_questions a))) as)) st)"
    by (rule for_each_concat) (rule q)
  have c: "concat (map (\<lambda>p. concat (map subquestions (g p))) xs)
      = concat (map subquestions (concat (map g xs)))" for g :: "'a \<Rightarrow> question list" and xs
    by (induction xs) simp_all
  show ?thesis
    by (simp add: count_section_def r l c leaf_units_def correct_units_def total_units_def tally_def)
qed

lemma correct_units_bounds: "0 \<le> correct_units exam answers" "correct_units exam answers \<le> total_units exam"
  by (simp_all add: correct_units_def total_units_def)

lemma calculate_auto_score_eq:
  "calculate_auto_score exam answers =
     (if total_units exam = 0 then Inr 0
      else Inr (source_formula (correct_units exam answers) (total_units exam)))"
proof (cases "total_units exam = 0")
  case True
  then show ?thesis by (simp add: calculate_auto_score_def count_section_eq bind_err_def)
next
  case False
  then have "0 < total_units exam" by (simp add: total_units_def)
  then have "band_score (correct_units exam answers) (total_units exam)
      = Inr (source_formula (correct_units exam answers) (total_units exam))"
    using correct_units_bounds by (intro band_score_eq)
  then show ?thesis using False by (simp add: calculate_auto_score_def count_section_eq bind_err_def)
qed

section \<open>Facts about the normalizer\<close>

lemma normalize_answer_PStr: "normalize_answer (PStr s) = Inr (take 1 (py_lower (py_strip s)))"
proof (cases "s = []")
  case True
  then show ?thesis by (simp add: normalize_answer_def py_strip_def py_lower_def)
next
  case False
  then show ?thesis
    by (simp add: normalize_answer_def py_str_def py_lower_def split: list.splits)
qed

lemma normalize_answer_first:
  "normalize_answer (PList (x # xs)) = Inr (take 1 (py_lower (py_strip (py_str x))))"
  by (simp add: normalize_answer_def list_first_def py_lower_def split: list.splits)

lemma normalize_answer_scalar:
  assumes "py_truthy v" and "\<And>xs. v \<noteq> PList xs"
  shows "normalize_answer v = Inr (take 1 (py_lower (py_strip (py_str v))))"
proof (cases v)
  case (PList xs)
  then show ?thesis using assms(2) by blast
qed (use assms(1) in \<open>simp_all add: normalize_answer_def py_lower_def split: list.splits\<close>)

section \<open>Facts about the second model of the normalizer\<close>

lemma udigits10_nonempty: "0 < length (udigits10 n)"
  by (subst udigits10.simps) simp

lemma udigits10_long: "10 ^ k \<le> n \<Longrightarrow> k < length (udigits10 n)"
proof (induction k arbitrary: n)
  case 0
  show ?case by (rule udigits10_nonempty)
next
  case (Suc k)
  have "(10::nat) \<le> 10 ^ Suc k" by simp
  then have n: "\<not> n < 10" using Suc.prems by linarith
  have "10 ^ k \<le> n div 10" using Suc.prems by (simp add: less_eq_div_iff_mult_less_eq mult.commute)
  then have "k < length (udigits10 (n div 10))" by (rule Suc.IH)
  then show ?case using n by (subst udigits10.simps) simp
qed

lemma int_str_long: "max_str_digits < length (udigits10 (nat \<bar>i\<bar>)) \<Longrightarrow> int_str i = Inl ValueError"
  by (simp add: int_str_def)

lemma int_str_short:
  "length (udigits10 (nat \<bar>i\<bar>)) \<le> max_str_digits \<Longrightarrow>
    int_str i = Inr (if i < 0 then 45 # udigits10 (nat \<bar>i\<bar>) else udigits10 (nat \<bar>i\<bar>))"
  by (simp add: int_str_def)

lemma huge_int_digits: "max_str_digits < length (udigits10 (nat \<bar>huge_int\<bar>))"
proof -
  have "nat \<bar>(10::int) ^ k\<bar> = 10 ^ k" for k by (simp add: nat_power_eq)
  then have "(10::nat) ^ k \<le> nat \<bar>(10::int) ^ k\<bar>" for k by simp
  then have "k < length (udigits10 (nat \<bar>(10::int) ^ k\<bar>))" for k by (rule udigits10_long)
  then show ?thesis unfolding huge_int_def max_str_digits_def .
qed

lemma huge_int_truthy: "huge_int \<noteq> 0"
  unfolding huge_int_def by (rule power_not_zero) simp

lemma normalize_answer_wide_falsy: "\<not> object_truthy v \<Longrightarrow> normalize_answer_wide v = Inr []"
  by (simp add: normalize_answer_wide_def)

lemma token_take: "(case s of [] \<Rightarrow> Inr [] | c # x \<Rightarrow> Inr (lower_pointwise [c])) = Inr (lower_pointwise (take 1 s))"
  by (cases s) (simp_all add: lower_pointwise_def)

lemma normalize_answer_wide_scalar:
  "atom_truthy a \<Longrightarrow>
    normalize_answer_wide (Scalar a) = bind_err (atom_str a) (\<lambda>s. Inr (lower_pointwise (take 1 (u_strip s))))"
  by (simp add: normalize_answer_wide_def bind_err_def token_take split: sum.splits)

lemma normalize_answer_wide_sequence:
  "normalize_answer_wide (Sequence (a # xs))
    = bind_err (atom_str a) (\<lambda>s. Inr (lower_pointwise (take 1 (u_strip s))))"
  by (simp add: normalize_answer_wide_def seq_first_def bind_err_def token_take split: sum.splits)

lemma normalize_answer_wide_AStr:
  "normalize_answer_wide (Scalar (AStr s)) = Inr (lower_pointwise (take 1 (u_strip s)))"
proof (cases "s = []")
  case True
  then show ?thesis by (simp add: normalize_answer_wide_def u_strip_def lower_pointwise_def)
next
  case False
  then show ?thesis by (simp add: normalize_answer_wide_scalar atom_str_def bind_err_def)
qed

lemma u_lower_char_single: "c \<noteq> 304 \<Longrightarrow> \<exists>d. u_lower_char c = [d]"
  by (auto simp: u_lower_char_def split: option.splits prod.splits)

lemma lower_first: "take 1 s \<noteq> [304] \<Longrightarrow> lower_pointwise (take 1 s) = take 1 (lower_pointwise s)"
proof (cases s)
  case Nil
  then show ?thesis by (simp add: lower_pointwise_def)
next
  case (Cons c cs)
  assume "take 1 s \<noteq> [304]"
  then have "c \<noteq> 304" using Cons by simp
  then obtain d where "u_lower_char c = [d]" using u_lower_char_single by blast
  then show ?thesis using Cons by (simp add: lower_pointwise_def)
qed

lemma normalize_answer_wide_huge:
  "normalize_answer_wide (Scalar (AInt huge_int)) = Inl ValueError"
  "normalize_answer_wide (Sequence (AInt huge_int # xs)) = Inl ValueError"
  using huge_int_truthy int_str_long [OF huge_int_digits]
  by (simp_all add: normalize_answer_wide_scalar normalize_answer_wide_sequence atom_str_def bind_err_def)

text \<open>
  The two models agree: on a value of the first model that has no list inside a list,
  with the integer that \<open>str\<close> is applied to within the digit limit, the second model
  returns the token of the first, code point for code point.
\<close>

lemma u_isspace_latin1:
  "n < 256 \<Longrightarrow> u_isspace n = ((9 \<le> n \<and> n \<le> 13) \<or> (28 \<le> n \<and> n \<le> 32) \<or> n = 133 \<or> n = 160)"
  by (auto simp: u_isspace_def)

lemma u_isspace_of_char: "u_isspace (of_char c) = py_isspace c"
  using u_isspace_latin1 [of "of_char c"] by (simp add: py_isspace_def Let_def)

lemma ustr_Nil: "ustr [] = []"
  by (simp add: ustr_def)

lemma ustr_Cons: "ustr (c # s) = of_char c # ustr s"
  by (simp add: ustr_def)

lemma ustr_append: "ustr (s @ t) = ustr s @ ustr t"
  by (simp add: ustr_def)

lemma ustr_dropWhile: "ustr (dropWhile py_isspace s) = dropWhile u_isspace (ustr s)"
  by (induction s) (simp_all add: ustr_Nil ustr_Cons u_isspace_of_char)

lemma ustr_strip: "ustr (py_strip s) = u_strip (ustr s)"
proof -
  have r: "ustr (rev t) = rev (ustr t)" for t by (simp add: ustr_def rev_map)
  show ?thesis by (simp add: py_strip_def u_strip_def r ustr_dropWhile)
qed

lemma u_lower_char_latin1:
  "n < 256 \<Longrightarrow>
    u_lower_char n = [if (65 \<le> n \<and> n \<le> 90) \<or> (192 \<le> n \<and> n \<le> 222 \<and> n \<noteq> 215) then n + 32 else n]"
  by (simp add: u_lower_char_def)

lemma of_char_shift: "n \<le> 222 \<Longrightarrow> of_char (char_of (n + 32 :: nat)) = (n + 32 :: nat)"
  by simp

lemma u_lower_of_char: "u_lower_char (of_char c) = [of_char (py_lower_char c)]"
  using u_lower_char_latin1 [of "of_char c"] of_char_shift [of "of_char c"]
  by (simp add: py_lower_char_def Let_def)

lemma ustr_lower: "ustr (py_lower s) = lower_pointwise (ustr s)"
  by (induction s) (simp_all add: ustr_Nil ustr_Cons py_lower_def lower_pointwise_def u_lower_of_char)

lemma ustr_digits10: "ustr (digits10 n) = udigits10 n"
proof (induction n rule: digits10.induct)
  case (1 n)
  have d: "of_char (digit_char k) = (48 + k :: nat)" if "k < 10" for k
    using that by (simp add: digit_char_def)
  show ?case
  proof (cases "n < 10")
    case True
    then show ?thesis
      by (subst digits10.simps, subst udigits10.simps) (simp add: ustr_Nil ustr_Cons d)
  next
    case False
    then have "ustr (digits10 (n div 10)) = udigits10 (n div 10)" by (rule "1.IH")
    then show ?thesis using False
      by (subst digits10.simps, subst udigits10.simps) (simp add: ustr_Nil ustr_Cons ustr_append d)
  qed
qed

lemma ustr_py_str_int:
  "ustr (py_str_int i) = (if i < 0 then 45 # udigits10 (nat \<bar>i\<bar>) else udigits10 (nat \<bar>i\<bar>))"
proof (cases "i < 0")
  case True
  then show ?thesis
    by (simp add: py_str_int_def ustr_Cons ustr_digits10 del: digits10.simps udigits10.simps)
next
  case False
  then show ?thesis
    by (simp add: py_str_int_def ustr_digits10 del: digits10.simps udigits10.simps)
qed

lemma atom_str_widen:
  assumes "widen_atom x = Some a" and "atom_fits a"
  shows "atom_str a = Inr (ustr (py_str x))"
proof (cases x)
  case (PInt i)
  then have a: "a = AInt i" using assms(1) by simp
  then have "length (udigits10 (nat \<bar>i\<bar>)) \<le> max_str_digits" using assms(2) by (simp add: atom_fits_def)
  then show ?thesis
    by (simp add: a PInt atom_str_def int_str_short py_str_def ustr_py_str_int
        del: digits10.simps udigits10.simps)
qed (use assms(1) in \<open>auto simp: atom_str_def py_str_def\<close>)

lemma token_widen:
  "(case u_strip (ustr s) of [] \<Rightarrow> Inr [] | c # x \<Rightarrow> Inr (lower_pointwise [c]))
    = map_sum id ustr (case py_strip s of [] \<Rightarrow> Inr [] | c # x \<Rightarrow> Inr (py_lower [c]))"
proof (cases "py_strip s")
  case Nil
  then have "u_strip (ustr s) = []" using ustr_strip [of s] by (simp add: ustr_Nil)
  then show ?thesis using Nil by (simp add: ustr_Nil)
next
  case (Cons c cs)
  then have "u_strip (ustr s) = of_char c # ustr cs" using ustr_strip [of s] by (simp add: ustr_Cons)
  then show ?thesis using Cons ustr_lower [of "[c]"] by (simp add: ustr_Nil ustr_Cons)
qed

lemma normalize_answer_widen_scalar:
  assumes "widen_atom v = Some a" and "atom_fits a"
  shows "normalize_answer_wide (Scalar a) = map_sum id ustr (normalize_answer v)"
proof -
  have t: "atom_truthy a = py_truthy v" using assms(1) by (cases v) (auto simp: ustr_def)
  have nl: "(case v of PList xs \<Rightarrow> list_first xs | _ \<Rightarrow> Inr v) = Inr v"
    using assms(1) by (cases v) simp_all
  show ?thesis
    by (simp add: normalize_answer_wide_def normalize_answer_def t nl
        atom_str_widen [OF assms] token_widen ustr_Nil)
qed

lemma normalize_answer_widen_sequence:
  assumes "widen_atoms xs = Some as" and "as = [] \<or> atom_fits (hd as)"
  shows "normalize_answer_wide (Sequence as) = map_sum id ustr (normalize_answer (PList xs))"
proof (cases xs)
  case Nil
  then show ?thesis using assms(1) by (auto simp: normalize_answer_wide_def normalize_answer_def ustr_Nil)
next
  case (Cons x xs')
  then obtain a as' where a: "widen_atom x = Some a" "as = a # as'"
    using assms(1) by (auto split: option.splits)
  then have "atom_fits a" using assms(2) by simp
  then show ?thesis
    using Cons a
    by (simp add: normalize_answer_wide_def normalize_answer_def seq_first_def list_first_def
        atom_str_widen [OF a(1)] token_widen)
qed

text \<open>The examples of the specification, and the string that starts with U+0130.\<close>

lemma ex_B: "normalize_answer_wide (Scalar (AStr (ustr ''B''))) = Inr (ustr ''b'')"
  by (simp add: normalize_answer_wide_AStr ustr_def u_strip_def u_isspace_def
      lower_pointwise_def u_lower_char_def)

lemma ex_list: "normalize_answer_wide (Sequence [AStr (ustr ''b''), AStr (ustr ''x'')]) = Inr (ustr ''b'')"
  by (simp add: normalize_answer_wide_sequence atom_str_def bind_err_def ustr_def u_strip_def
      u_isspace_def lower_pointwise_def u_lower_char_def)

lemma ex_spaces: "normalize_answer_wide (Scalar (AStr (ustr '' B ''))) = Inr (ustr ''b'')"
  by (simp add: normalize_answer_wide_AStr ustr_def u_strip_def u_isspace_def
      lower_pointwise_def u_lower_char_def)

lemma ex_b2: "normalize_answer_wide (Scalar (AStr (ustr ''b2''))) = Inr (ustr ''b'')"
  by (simp add: normalize_answer_wide_AStr ustr_def u_strip_def u_isspace_def
      lower_pointwise_def u_lower_char_def)

lemma istanbul_source: "normalize_answer_wide (Scalar (AStr istanbul)) = Inr [105, 775]"
  by (simp add: normalize_answer_wide_AStr istanbul_def ustr_def u_strip_def u_isspace_def
      lower_pointwise_def u_lower_char_def)

lemma istanbul_spec: "take 1 (lower_pointwise (u_strip istanbul)) = [105]"
  by (simp add: istanbul_def ustr_def u_strip_def u_isspace_def lower_pointwise_def u_lower_char_def)

section \<open>The claims\<close>




text \<open>
  Claim C2. For every exam and every answer mapping, \<open>calculate_auto_score\<close> returns a
  value between 0 and 9 that is an integer multiple of one half.
\<close>

theorem c2_score_range:
  "\<exists>b k. calculate_auto_score exam answers = Inr b \<and> 0 \<le> b \<and> b \<le> 9 \<and> b = of_int k / 2"
proof (cases "total_units exam = 0")
  case True
  then have "calculate_auto_score exam answers = Inr 0" by (simp add: calculate_auto_score_eq)
  then show ?thesis by (intro exI [of _ 0] exI [of _ "0::int"]) simp
next
  case False
  then have "0 < total_units exam" by (simp add: total_units_def)
  then obtain k where k: "k \<in> {0..18}"
      "source_formula (correct_units exam answers) (total_units exam) = of_int k / 2"
    using source_formula_range [OF correct_units_bounds, of exam answers] by blast
  have "calculate_auto_score exam answers = Inr (of_int k / 2)"
    using False by (simp add: calculate_auto_score_eq k(2))
  moreover have "(0::rat) \<le> of_int k / 2" "(of_int k / 2 :: rat) \<le> 9" using k(1) by simp_all
  ultimately show ?thesis by blast
qed

theorem c2_score_range_witness:
  "\<exists>b k. calculate_auto_score exam3 answers_two = Inr b \<and> 0 \<le> b \<and> b \<le> 9 \<and> b = of_int k / 2"
  by (rule c2_score_range)

text \<open>
  Claim C3. \<open>calculate_auto_score\<close> returns a score and raises nothing, for every exam
  and every answer mapping of the model, the well-typed ones among them; a unit whose key
  is missing from the mapping adds one to the total and nothing to the correct count.
\<close>

theorem c3_never_raises:
  "(\<exists>b. calculate_auto_score exam answers = Inr b)
   \<and> (answers (question_key u) = None \<longrightarrow> grade_subq answers u (c, t) = Inr (c, t + 1))"
  by (simp add: calculate_auto_score_eq grade_subq_eq counted_correct_def)

theorem c3_never_raises_witness:
  "(\<exists>b. calculate_auto_score exam3 answers_one = Inr b)
   \<and> answers_one (question_key \<lparr>subq_id = 2, correct_answer = PStr ''B''\<rparr>) = None
   \<and> grade_subq answers_one \<lparr>subq_id = 2, correct_answer = PStr ''B''\<rparr> (1, 1) = Inr (1, 2)"
proof -
  have k: "answers_one (question_key \<lparr>subq_id = 2, correct_answer = PStr ''B''\<rparr>) = None"
    by code_simp
  show ?thesis
    using c3_never_raises [of exam3 answers_one "\<lparr>subq_id = 2, correct_answer = PStr ''B''\<rparr>" 1 1]
    by (simp add: k)
qed

text \<open>
  Claim C4. With exactly three leaf units, one counted correct gives the score 3.5 and
  two counted correct give 6.5.
\<close>

theorem c4_three_units:
  assumes "total_units exam = 3"
  shows "(correct_units exam answers = 1 \<longrightarrow> calculate_auto_score exam answers = Inr (7 / 2))
       \<and> (correct_units exam answers = 2 \<longrightarrow> calculate_auto_score exam answers = Inr (13 / 2))"
  using assms by (simp add: calculate_auto_score_eq source_formula_1_3 source_formula_2_3)

theorem c4_three_units_witness:
  "total_units exam3 = 3
   \<and> correct_units exam3 answers_one = 1 \<and> calculate_auto_score exam3 answers_one = Inr (7 / 2)
   \<and> correct_units exam3 answers_two = 2 \<and> calculate_auto_score exam3 answers_two = Inr (13 / 2)"
proof -
  have t: "total_units exam3 = 3" by code_simp
  have c1: "correct_units exam3 answers_one = 1" by code_simp
  have c2: "correct_units exam3 answers_two = 2" by code_simp
  show ?thesis
    using c4_three_units [OF t, of answers_one] c4_three_units [OF t, of answers_two]
    by (simp add: t c1 c2)
qed

text \<open>
  Claim C5. An exam with no leaf unit has the score 0.0, whatever the answer mapping.
\<close>

theorem c5_zero_units:
  assumes "leaf_units exam = []"
  shows "calculate_auto_score exam answers = Inr 0"
  using assms by (simp add: calculate_auto_score_eq total_units_def)

theorem c5_zero_units_witness:
  "leaf_units exam_empty = [] \<and> calculate_auto_score exam_empty answers_all = Inr 0"
proof -
  have l: "leaf_units exam_empty = []" by code_simp
  show ?thesis using c5_zero_units [OF l, of answers_all] by (simp add: l)
qed

text \<open>
  Claim C6, as amended. A submitted value that is a sequence with zero elements does not
  make the normalizer fail: the empty list is falsy, so \<open>normalize_answer\<close> returns the
  empty token before it indexes the list.
\<close>

theorem c6_empty_sequence: "normalize_answer (PList []) = Inr ''''"
  by (simp add: normalize_answer_def)

text \<open>The claim as written says that the normalizer raises on the empty list; it does not.\<close>

theorem c6_counterexample: "\<not> isl (normalize_answer (PList []))"
  by (simp add: normalize_answer_def)

text \<open>
  Claim C7, as amended. The normalizer maps \<open>"B"\<close>, \<open>["b", "x"]\<close>, \<open>" B "\<close> and \<open>"b2"\<close> to
  the token \<open>b\<close>, and \<open>None\<close> and the empty string to the empty token. In general it takes
  the first element of a list, trims surrounding whitespace, keeps the first character
  and lower-cases that character; the token is empty when the trimmed string is. Unless
  the first character is U+0130 this is the first character of the lower-cased trimmed
  string.
\<close>

theorem c7_first_character_lowered:
  "normalize_answer_wide (Scalar (AStr (ustr ''B''))) = Inr (ustr ''b'')
   \<and> normalize_answer_wide (Sequence [AStr (ustr ''b''), AStr (ustr ''x'')]) = Inr (ustr ''b'')
   \<and> normalize_answer_wide (Scalar (AStr (ustr '' B ''))) = Inr (ustr ''b'')
   \<and> normalize_answer_wide (Scalar (AStr (ustr ''b2''))) = Inr (ustr ''b'')
   \<and> normalize_answer_wide (Scalar ANone) = Inr []
   \<and> normalize_answer_wide (Scalar (AStr [])) = Inr []
   \<and> normalize_answer_wide (Scalar (AStr s)) = Inr (lower_pointwise (take 1 (u_strip s)))
   \<and> normalize_answer_wide (Sequence (AStr s # xs)) = Inr (lower_pointwise (take 1 (u_strip s)))
   \<and> (u_strip s = [] \<longrightarrow> normalize_answer_wide (Scalar (AStr s)) = Inr [])
   \<and> (take 1 (u_strip s) \<noteq> [304] \<longrightarrow>
        normalize_answer_wide (Scalar (AStr s)) = Inr (take 1 (lower_pointwise (u_strip s))))"
proof -
  have 5: "normalize_answer_wide (Scalar ANone) = Inr []"
    and 6: "normalize_answer_wide (Scalar (AStr [])) = Inr []"
    by (simp_all add: normalize_answer_wide_falsy)
  have 7: "normalize_answer_wide (Sequence (AStr s # xs)) = Inr (lower_pointwise (take 1 (u_strip s)))"
    by (simp add: normalize_answer_wide_sequence atom_str_def bind_err_def)
  have 8: "u_strip s = [] \<longrightarrow> normalize_answer_wide (Scalar (AStr s)) = Inr []"
    by (simp add: normalize_answer_wide_AStr lower_pointwise_def)
  have 9: "take 1 (u_strip s) \<noteq> [304] \<longrightarrow>
      normalize_answer_wide (Scalar (AStr s)) = Inr (take 1 (lower_pointwise (u_strip s)))"
    using lower_first [of "u_strip s"] by (simp add: normalize_answer_wide_AStr)
  show ?thesis
    using ex_B ex_list ex_spaces ex_b2 5 6 7 8 9 normalize_answer_wide_AStr [of s] by blast
qed

theorem c7_first_character_lowered_witness:
  "normalize_answer_wide (Scalar (AStr (ustr ''  Cat''))) = Inr (ustr ''c'')
   \<and> normalize_answer_wide (Sequence [AStr (ustr ''  Cat''), AStr (ustr ''d'')]) = Inr (ustr ''c'')
   \<and> take 1 (u_strip (ustr ''  Cat'')) \<noteq> [304]
   \<and> take 1 (lower_pointwise (u_strip (ustr ''  Cat''))) = ustr ''c''
   \<and> u_strip (ustr ''  '') = [] \<and> normalize_answer_wide (Scalar (AStr (ustr ''  ''))) = Inr []
   \<and> normalize_answer_wide (Scalar (AStr istanbul)) = Inr (lower_pointwise [304])"
proof -
  have a: "take 1 (u_strip (ustr ''  Cat'')) = [67]"
    by (simp add: ustr_def u_strip_def u_isspace_def)
  have b: "lower_pointwise [67] = ustr ''c''"
    by (simp add: ustr_def lower_pointwise_def u_lower_char_def)
  have c: "u_strip (ustr ''  '') = []"
    by (simp add: ustr_def u_strip_def u_isspace_def)
  have d: "take 1 (u_strip istanbul) = [304]"
    by (simp add: istanbul_def ustr_def u_strip_def u_isspace_def)
  have e: "take 1 (lower_pointwise (u_strip (ustr ''  Cat''))) = ustr ''c''"
    by (simp add: ustr_def u_strip_def u_isspace_def lower_pointwise_def u_lower_char_def)
  have n: "lower_pointwise [] = []" by (simp add: lower_pointwise_def)
  show ?thesis
    using c7_first_character_lowered [of "ustr ''  Cat''" "[AStr (ustr ''d'')]"]
      c7_first_character_lowered [of "ustr ''  ''" "[]"]
      c7_first_character_lowered [of istanbul "[]"]
    unfolding a b c d e n by (simp add: n)
qed

text \<open>
  The claim as written lower-cases before it keeps the first character. For a string
  that starts with U+0130 that gives the one code point \<open>i\<close>, and the source, which
  lower-cases the first character alone, returns the two code points U+0069 U+0307.
\<close>

theorem c7_counterexample:
  "normalize_answer_wide (Scalar (AStr istanbul)) = Inr [105, 775]
   \<and> take 1 (lower_pointwise (u_strip istanbul)) = [105]
   \<and> normalize_answer_wide (Scalar (AStr istanbul))
       \<noteq> Inr (take 1 (lower_pointwise (u_strip istanbul)))"
  using istanbul_source istanbul_spec by simp

text \<open>
  Claim C8, as amended. For an exam with at least one leaf unit in which every leaf unit
  is counted correct, \<open>calculate_auto_score\<close> returns 9.0: 100 percent gives the band
  10.0, and the clamp \<open>min(band, 9.0)\<close> is what cuts it to 9.0.
\<close>

theorem c8_all_correct:
  assumes "leaf_units exam \<noteq> []"
    and "list_all (counted_correct answers) (leaf_units exam)"
  shows "unclamped_band (correct_units exam answers) (total_units exam) = 10
    \<and> calculate_auto_score exam answers
        = Inr (py_min (unclamped_band (correct_units exam answers) (total_units exam)) 9)
    \<and> calculate_auto_score exam answers = Inr 9"
proof -
  have "filter (counted_correct answers) (leaf_units exam) = leaf_units exam"
    using assms(2) by (simp add: list_all_iff)
  then have c: "correct_units exam answers = total_units exam"
    by (simp add: correct_units_def total_units_def)
  have t: "0 < total_units exam" using assms(1) by (simp add: total_units_def)
  then have u: "unclamped_band (total_units exam) (total_units exam) = 10"
    by (rule unclamped_band_all)
  show ?thesis using t by (simp add: calculate_auto_score_eq c source_formula_clamp u py_min_def)
qed

theorem c8_all_correct_witness:
  "leaf_units exam3 \<noteq> [] \<and> list_all (counted_correct answers_all) (leaf_units exam3)
   \<and> unclamped_band (correct_units exam3 answers_all) (total_units exam3) = 10
   \<and> calculate_auto_score exam3 answers_all = Inr 9"
proof -
  have l: "leaf_units exam3 \<noteq> []" by code_simp
  have a: "list_all (counted_correct answers_all) (leaf_units exam3)" by code_simp
  show ?thesis using c8_all_correct [OF l a] l a by (simp add: py_min_def)
qed

text \<open>
  The claim as written has the clamp inactive at 100 percent. With all three units of
  \<open>exam3\<close> correct the band is 10.0 before the clamp, not 9.0. And without a leaf unit
  every unit is counted correct, vacuously, and the score is 0.0.
\<close>

theorem c8_counterexample:
  "leaf_units exam3 \<noteq> [] \<and> list_all (counted_correct answers_all) (leaf_units exam3)
   \<and> unclamped_band (correct_units exam3 answers_all) (total_units exam3) = 10
   \<and> unclamped_band (correct_units exam3 answers_all) (total_units exam3) \<noteq> 9
   \<and> py_min (unclamped_band (correct_units exam3 answers_all) (total_units exam3)) 9
       \<noteq> unclamped_band (correct_units exam3 answers_all) (total_units exam3)
   \<and> list_all (counted_correct no_answers) (leaf_units exam_empty)
   \<and> calculate_auto_score exam_empty no_answers = Inr 0"
proof -
  have l: "leaf_units exam3 \<noteq> []" by code_simp
  have a: "list_all (counted_correct answers_all) (leaf_units exam3)" by code_simp
  have c: "correct_units exam3 answers_all = 3" by code_simp
  have t: "total_units exam3 = 3" by code_simp
  have u: "unclamped_band 3 3 = 10" by (rule unclamped_band_all) simp
  have e: "leaf_units exam_empty = []" by code_simp
  have z: "calculate_auto_score exam_empty no_answers = Inr 0"
    by (simp add: calculate_auto_score_eq total_units_def e)
  show ?thesis by (simp add: l a c t u e z py_min_def)
qed


text \<open>
  Claim C9. A unit whose \<open>correct_answer\<close> normalizes to the empty token is counted
  correct by the loop body exactly when its key is in the answers and the submitted value
  normalizes to the empty token too.
\<close>

theorem c9_empty_correct_answer:
  assumes "normalize_answer (correct_answer u) = Inr ''''"
  shows "grade_subq answers u (c, t)
    = Inr (if \<exists>v. answers (question_key u) = Some v \<and> normalize_answer v = Inr '''' then c + 1 else c,
           t + 1)"
  using assms by (cases "answers (question_key u)") (simp_all add: grade_subq_eq counted_correct_def)

theorem c9_empty_correct_answer_witness:
  "normalize_answer (correct_answer unit_blank) = Inr ''''
   \<and> grade_subq answers_blank unit_blank (0, 0) = Inr (1, 1)
   \<and> grade_subq no_answers unit_blank (0, 0) = Inr (0, 1)
   \<and> grade_subq [''q_7'' \<mapsto> PStr ''a''] unit_blank (0, 0) = Inr (0, 1)"
proof -
  have h: "normalize_answer (correct_answer unit_blank) = Inr ''''" by code_simp
  have k: "question_key unit_blank = ''q_7''" by code_simp
  have n1: "normalize_answer (PStr '' '') = Inr ''''" by code_simp
  have n2: "normalize_answer (PStr ''a'') = Inr ''a''" by code_simp
  show ?thesis
    using c9_empty_correct_answer [OF h, of answers_blank 0 0]
      c9_empty_correct_answer [OF h, of no_answers 0 0]
      c9_empty_correct_answer [OF h, of "[''q_7'' \<mapsto> PStr ''a'']" 0 0]
    by (simp add: h k n1 n2 answers_blank_def no_answers_def)
qed

text \<open>
  Claim C10, as amended. On \<open>None\<close>, booleans, integers, strings and lists of these, every
  falsy value (\<open>None\<close>, the empty string, the empty list, \<open>0\<close>, \<open>False\<close>) gives the empty
  token, and any other value that is not a list goes through \<open>str\<close> before it is trimmed,
  cut to its first character and lower-cased, as the first element of a list does. The
  normalizer raises nothing when that \<open>str\<close> is of \<open>None\<close>, a boolean, a string or an
  integer of at most 4300 digits. It is not total: for an integer of more digits \<open>str\<close>
  raises \<open>ValueError\<close>, and so does the normalizer.
\<close>

theorem c10_normalizer_limits:
  "(\<not> object_truthy v \<longrightarrow> normalize_answer_wide v = Inr [])
   \<and> normalize_answer_wide (Scalar ANone) = Inr []
   \<and> normalize_answer_wide (Scalar (AStr [])) = Inr []
   \<and> normalize_answer_wide (Sequence []) = Inr []
   \<and> normalize_answer_wide (Scalar (AInt 0)) = Inr []
   \<and> normalize_answer_wide (Scalar (ABool False)) = Inr []
   \<and> (atom_truthy a \<longrightarrow>
        normalize_answer_wide (Scalar a)
          = bind_err (atom_str a) (\<lambda>s. Inr (lower_pointwise (take 1 (u_strip s)))))
   \<and> normalize_answer_wide (Sequence (a # xs))
        = bind_err (atom_str a) (\<lambda>s. Inr (lower_pointwise (take 1 (u_strip s))))
   \<and> (atom_fits a \<longrightarrow>
        (\<exists>s. normalize_answer_wide (Scalar a) = Inr s)
        \<and> (\<exists>s. normalize_answer_wide (Sequence (a # xs)) = Inr s))
   \<and> (i \<noteq> 0 \<and> \<not> atom_fits (AInt i) \<longrightarrow>
        normalize_answer_wide (Scalar (AInt i)) = Inl ValueError
        \<and> normalize_answer_wide (Sequence (AInt i # xs)) = Inl ValueError)"
proof -
  have f: "\<not> object_truthy v \<longrightarrow> normalize_answer_wide v = Inr []"
    by (simp add: normalize_answer_wide_falsy)
  have s: "atom_fits a \<Longrightarrow> \<exists>s. atom_str a = Inr s"
    by (cases a) (simp_all add: atom_str_def atom_fits_def int_str_short del: udigits10.simps)
  have t: "atom_fits a \<longrightarrow>
      (\<exists>s. normalize_answer_wide (Scalar a) = Inr s)
      \<and> (\<exists>s. normalize_answer_wide (Sequence (a # xs)) = Inr s)"
  proof
    assume "atom_fits a"
    then obtain s where s': "atom_str a = Inr s" using s by blast
    have "\<exists>s. normalize_answer_wide (Scalar a) = Inr s"
      by (cases "atom_truthy a")
        (simp_all add: normalize_answer_wide_scalar normalize_answer_wide_falsy s' bind_err_def)
    moreover have "\<exists>s. normalize_answer_wide (Sequence (a # xs)) = Inr s"
      by (simp add: normalize_answer_wide_sequence s' bind_err_def)
    ultimately show "(\<exists>s. normalize_answer_wide (Scalar a) = Inr s)
      \<and> (\<exists>s. normalize_answer_wide (Sequence (a # xs)) = Inr s)" ..
  qed
  have r: "i \<noteq> 0 \<and> \<not> atom_fits (AInt i) \<longrightarrow>
      normalize_answer_wide (Scalar (AInt i)) = Inl ValueError
      \<and> normalize_answer_wide (Sequence (AInt i # xs)) = Inl ValueError"
    by (simp add: atom_fits_def normalize_answer_wide_scalar normalize_answer_wide_sequence
        atom_str_def int_str_long bind_err_def del: udigits10.simps)
  show ?thesis
    using f t r
    by (simp add: normalize_answer_wide_falsy normalize_answer_wide_scalar
        normalize_answer_wide_sequence del: udigits10.simps)
qed

theorem c10_normalizer_limits_witness:
  "\<not> object_truthy (Sequence []) \<and> normalize_answer_wide (Sequence []) = Inr []
   \<and> atom_truthy (AInt (- 5)) \<and> atom_fits (AInt (- 5))
   \<and> normalize_answer_wide (Scalar (AInt (- 5))) = Inr (ustr ''-'')
   \<and> normalize_answer_wide (Sequence [AInt (- 5), ANone]) = Inr (ustr ''-'')
   \<and> huge_int \<noteq> 0 \<and> \<not> atom_fits (AInt huge_int)
   \<and> normalize_answer_wide (Scalar (AInt huge_int)) = Inl ValueError
   \<and> normalize_answer_wide (Sequence [AInt huge_int, ANone]) = Inl ValueError"
proof -
  have a: "atom_fits (AInt (- 5))" by (simp add: atom_fits_def max_str_digits_def)
  have b: "atom_str (AInt (- 5)) = Inr [45, 53]"
    by (simp add: atom_str_def int_str_def max_str_digits_def)
  have c: "lower_pointwise (take 1 (u_strip [45, 53])) = ustr ''-''"
    by (simp add: ustr_def u_strip_def u_isspace_def lower_pointwise_def u_lower_char_def)
  have h: "\<not> atom_fits (AInt huge_int)" using huge_int_digits by (simp add: atom_fits_def)
  show ?thesis
    using c10_normalizer_limits [of "Sequence []" "AInt (- 5)" "[ANone]" huge_int] c
    by (simp add: a b h huge_int_truthy bind_err_def del: udigits10.simps)
qed

text \<open>The claim as written has the normalizer never raise; on \<open>10 ** 4300\<close> it does.\<close>

theorem c10_counterexample:
  "normalize_answer_wide (Scalar (AInt huge_int)) = Inl ValueError"
  by (rule normalize_answer_wide_huge(1))

end
